theory Spec2Isabelle
  imports Complex_Main "HOL-Library.Log_Nat"
begin

section \<open>The C type \<open>double\<close>\<close>

text \<open>
  \<open>omp_offload_mc.c\<close> computes with C \<open>double\<close>s (IEEE 754 binary64, round to nearest,
  ties to even). A \<open>double\<close> is a NaN, an infinity or a finite value; a finite value is
  kept as the real number it denotes, and every arithmetic operation rounds its exact
  result with \<open>rnd\<close> (each operation on its own: no fused multiply-add, no wider
  intermediate format). The sign of a zero is not tracked: the only divisors of the program
  that can be zero are a square (\<open>EX*EX\<close>) and a trial count, and both are \<open>+0\<close> when
  they are zero, so a division by zero takes the sign of its dividend.
\<close>

datatype double = NaN | PInf | NInf | Fin real

definition round_even :: "real \<Rightarrow> int" where
  "round_even s =
     (let f = \<lfloor>s\<rfloor>; r = s - of_int f
      in if r < 1/2 then f else if 1/2 < r \<or> odd f then f + 1 else f)"

text \<open>\<open>ilog2 a\<close> is \<open>\<lfloor>log\<^sub>2 a\<rfloor>\<close> for \<open>a > 0\<close>, computed on integers.\<close>

definition ilog2 :: "real \<Rightarrow> int" where
  "ilog2 a = (if 1 \<le> a then bitlen \<lfloor>a\<rfloor> - 1 else - bitlen (\<lceil>1 / a\<rceil> - 1))"

text \<open>
  Rounding to binary64: 53 significant bits, exponents from \<open>-1022\<close> (below it the
  spacing stays \<open>2\<^sup>-\<^sup>1\<^sup>0\<^sup>7\<^sup>4\<close>, the subnormal range), overflow to an infinity from \<open>2\<^sup>1\<^sup>0\<^sup>2\<^sup>4\<close>.
\<close>

definition rnd :: "real \<Rightarrow> double" where
  "rnd x =
     (if x = 0 then Fin 0
      else let a = \<bar>x\<bar>;
               e = max (ilog2 a) (- 1022);
               u = 2 powi (e - 52);
               v = of_int (round_even (a / u)) * u
           in if 2 ^ 1024 \<le> v then (if x < 0 then NInf else PInf)
              else Fin (if x < 0 then - v else v))"

fun is_neg :: "double \<Rightarrow> bool" where
  "is_neg NInf = True"
| "is_neg (Fin x) = (x < 0)"
| "is_neg _ = False"

definition inf_sign :: "bool \<Rightarrow> double" where
  "inf_sign neg = (if neg then NInf else PInf)"

fun dneg :: "double \<Rightarrow> double" where
  "dneg NaN = NaN"
| "dneg PInf = NInf"
| "dneg NInf = PInf"
| "dneg (Fin x) = Fin (- x)"

fun dadd :: "double \<Rightarrow> double \<Rightarrow> double" where
  "dadd NaN _ = NaN"
| "dadd _ NaN = NaN"
| "dadd (Fin x) (Fin y) = rnd (x + y)"
| "dadd PInf NInf = NaN"
| "dadd NInf PInf = NaN"
| "dadd (Fin x) b = b"
| "dadd a _ = a"

definition dsub :: "double \<Rightarrow> double \<Rightarrow> double" where
  "dsub a b = dadd a (dneg b)"

fun dmul :: "double \<Rightarrow> double \<Rightarrow> double" where
  "dmul NaN _ = NaN"
| "dmul _ NaN = NaN"
| "dmul (Fin x) (Fin y) = rnd (x * y)"
| "dmul (Fin x) b = (if x = 0 then NaN else inf_sign ((x < 0) \<noteq> is_neg b))"
| "dmul a (Fin y) = (if y = 0 then NaN else inf_sign (is_neg a \<noteq> (y < 0)))"
| "dmul a b = inf_sign (is_neg a \<noteq> is_neg b)"

fun ddiv :: "double \<Rightarrow> double \<Rightarrow> double" where
  "ddiv NaN _ = NaN"
| "ddiv _ NaN = NaN"
| "ddiv (Fin x) (Fin y) =
     (if y = 0 then (if x = 0 then NaN else inf_sign (x < 0)) else rnd (x / y))"
| "ddiv (Fin x) b = Fin 0"
| "ddiv a (Fin y) = inf_sign (is_neg a \<noteq> (y < 0))"
| "ddiv a b = NaN"

text \<open>The comparisons \<open><\<close> and \<open>>\<close> of C: false as soon as an operand is a NaN.\<close>

fun dless :: "double \<Rightarrow> double \<Rightarrow> bool" where
  "dless NaN _ = False"
| "dless _ NaN = False"
| "dless (Fin x) (Fin y) = (x < y)"
| "dless NInf b = (b \<noteq> NInf)"
| "dless a PInf = (a \<noteq> PInf)"
| "dless _ _ = False"

definition dgreater :: "double \<Rightarrow> double \<Rightarrow> bool" where
  "dgreater a b = dless b a"

fun dsqrt :: "double \<Rightarrow> double" where
  "dsqrt NaN = NaN"
| "dsqrt PInf = PInf"
| "dsqrt NInf = NaN"
| "dsqrt (Fin x) = (if x < 0 then NaN else rnd (sqrt x))"

text \<open>
  The conversion of a \<open>long\<close> (64 bits) or an \<open>int\<close> to \<open>double\<close>, implicit in C where
  an integer meets a \<open>double\<close>: exact up to \<open>2\<^sup>5\<^sup>3\<close>, rounded above.
\<close>

definition double_of_long :: "int \<Rightarrow> double" where
  "double_of_long n = rnd (of_int n)"

definition LONG_MAX :: int where
  "LONG_MAX = 2 ^ 63 - 1"


section \<open>The convergence test\<close>

text \<open>
  \<^verbatim>\<open>
  int is_converged(double sum_X, double sum_X2, double ntrials,
                   double rtol, long maxtrials)
  {
      double EX  = sum_X / ntrials;
      double EX2 = sum_X2 / ntrials;
      double varX   = EX2-EX*EX;
      return (varX/(EX*EX)/ntrials < rtol*rtol || ntrials > maxtrials);
  }
  \<close>
  In \<open>ntrials > maxtrials\<close> the \<open>long\<close> is converted to \<open>double\<close> before the comparison.
  The local \<open>EX\<close> is written \<open>EX'\<close> (\<open>EX\<close> is reserved syntax of HOL).
\<close>

definition is_converged :: "double \<Rightarrow> double \<Rightarrow> double \<Rightarrow> double \<Rightarrow> int \<Rightarrow> bool" where
  "is_converged sum_X sum_X2 ntrials rtol maxtrials =
     (let EX' = ddiv sum_X ntrials;
          EX2 = ddiv sum_X2 ntrials;
          varX = dsub EX2 (dmul EX' EX')
      in dless (ddiv (ddiv varX (dmul EX' EX')) ntrials) (dmul rtol rtol)
         \<or> dgreater ntrials (double_of_long maxtrials))"

text \<open>
  The mean, the mean of the squares and the variance as the program computes them, each
  with the \<open>double\<close> operations.
\<close>

definition spec_mean :: "double \<Rightarrow> double \<Rightarrow> double" where
  "spec_mean sum_X ntrials = ddiv sum_X ntrials"

definition spec_mean_of_squares :: "double \<Rightarrow> double \<Rightarrow> double" where
  "spec_mean_of_squares sum_X2 ntrials = ddiv sum_X2 ntrials"

definition spec_variance :: "double \<Rightarrow> double \<Rightarrow> double \<Rightarrow> double" where
  "spec_variance sum_X sum_X2 ntrials =
     dsub (spec_mean_of_squares sum_X2 ntrials)
          (dmul (spec_mean sum_X ntrials) (spec_mean sum_X ntrials))"







section \<open>Run parameters and argument processing\<close>

text \<open>The three globals \<open>rtol\<close>, \<open>maxtrials\<close> (a \<open>long\<close>) and \<open>nbatch\<close> (an \<open>int\<close>).\<close>

record params =
  rtol :: double
  maxtrials :: int
  nbatch :: int

definition default_params :: params where
  "default_params = \<lparr> rtol = rnd (1 / 100), maxtrials = 1000000, nbatch = 500 \<rparr>"

text \<open>
  One turn of the \<open>getopt(argc, argv, "p:t:n:b:")\<close> loop: the option character, with
  the value that \<open>atof\<close>, \<open>atol\<close> or \<open>atoi\<close> returns for its argument; \<open>Opt_question\<close> is
  the \<open>'?'\<close> that \<open>getopt\<close> returns for an unknown option or a missing argument.
\<close>

datatype getopt_event =
    Opt_p
  | Opt_t double
  | Opt_n int
  | Opt_b int
  | Opt_question

text \<open>
  \<open>process_args\<close>: \<open>Inl c\<close> is a call \<open>exit(c)\<close>, \<open>Inr p\<close> the globals on return. The
  flag \<open>extra\<close> is the final test \<open>optind < argc\<close>.
\<close>

fun process_args_loop :: "params \<Rightarrow> getopt_event list \<Rightarrow> int + params" where
  "process_args_loop p [] = Inr p"
| "process_args_loop p (Opt_p # es) = process_args_loop p es"
| "process_args_loop p (Opt_t v # es) =
     (if dless v (Fin 0) then Inl (- 1) else process_args_loop (p\<lparr>rtol := v\<rparr>) es)"
| "process_args_loop p (Opt_n v # es) =
     (if v < 1 then Inl (- 1) else process_args_loop (p\<lparr>maxtrials := v\<rparr>) es)"
| "process_args_loop p (Opt_b v # es) =
     (if v < 1 then Inl (- 1) else process_args_loop (p\<lparr>nbatch := v\<rparr>) es)"
| "process_args_loop p (Opt_question # es) = Inl (- 1)"

definition process_args :: "params \<Rightarrow> getopt_event list \<Rightarrow> bool \<Rightarrow> int + params" where
  "process_args p es extra =
     (case process_args_loop p es of
        Inl c \<Rightarrow> Inl c
      | Inr p' \<Rightarrow> if extra then Inl (- 1) else Inr p')"

text \<open>The status the parent process sees after \<open>exit(c)\<close>: the low eight bits.\<close>

definition exit_status :: "int \<Rightarrow> int" where
  "exit_status c = c mod 256"


section \<open>The parallel region\<close>

text \<open>
  The deviate source (\<open>mt19937p.h\<close>: \<open>sgenrand\<close>, \<open>genrand\<close>) is not part of the file. It
  is a parameter \<open>genrand\<close> that maps a generator state to a deviate and the next state;
  a thread's generator state after \<open>sgenrand(seed, &mt)\<close> is given with the thread.
\<close>

definition run_trial :: "('mt \<Rightarrow> double \<times> 'mt) \<Rightarrow> 'mt \<Rightarrow> double \<times> 'mt" where
  "run_trial genrand m = genrand m"

text \<open>
  A deterministic stand-in for the deviate source: the state is the list of deviates
  still to come (and \<open>0\<close> for ever after).
\<close>

fun list_source :: "double list \<Rightarrow> double \<times> double list" where
  "list_source [] = (Fin 0, [])"
| "list_source (x # xs) = (x, xs)"

text \<open>The source that yields \<open>c\<close> for ever; its state carries nothing.\<close>

definition const_source :: "double \<Rightarrow> unit \<Rightarrow> double \<times> unit" where
  "const_source c u = (c, u)"

text \<open>
  The private variables of a thread (\<open>mt\<close>, \<open>done_flag\<close>, \<open>sum_X\<close>, \<open>sum_X2\<close>) and where it
  stands in the \<open>do ... while (!done_flag)\<close> loop: before the batch of trials, or before
  the critical section with the batch in its local sums.
\<close>

datatype pc = At_batch | At_critical

record 'mt worker =
  mt :: 'mt
  done_flag :: bool
  sum_X :: double
  sum_X2 :: double
  pc :: pc

text \<open>
  The shared variables \<open>all_sum_X\<close>, \<open>all_sum_X2\<close>, \<open>all_ntrials\<close> (a \<open>long\<close>), the
  threads, and a history that the program does not keep: \<open>commits\<close> lists, oldest
  first, the thread and the local sums of every critical section executed so far.
\<close>

record 'mt state =
  all_sum_X :: double
  all_sum_X2 :: double
  all_ntrials :: int
  workers :: "'mt worker list"
  commits :: "(nat \<times> double \<times> double) list"

datatype error = Signed_overflow

text \<open>
  \<^verbatim>\<open>
  sum_X = 0;
  sum_X2 = 0;
  for (t = 0; t < tnbatch; ++t) {
      double X = run_trial(&mt);
      sum_X  += X;
      sum_X2 += X*X;
  }
  \<close>
  \<open>tnbatch\<close> is a copy of \<open>nbatch\<close>.
\<close>

fun batch_loop ::
  "('mt \<Rightarrow> double \<times> 'mt) \<Rightarrow> nat \<Rightarrow> 'mt \<times> double \<times> double \<Rightarrow> 'mt \<times> double \<times> double" where
  "batch_loop genrand 0 s = s"
| "batch_loop genrand (Suc n) (m, sX, sX2) =
     (case run_trial genrand m of
        (X, m') \<Rightarrow> batch_loop genrand n (m', dadd sX X, dadd sX2 (dmul X X)))"

definition run_batch :: "('mt \<Rightarrow> double \<times> 'mt) \<Rightarrow> params \<Rightarrow> 'mt worker \<Rightarrow> 'mt worker" where
  "run_batch genrand p w =
     (case batch_loop genrand (nat (nbatch p)) (mt w, Fin 0, Fin 0) of
        (m, sX, sX2) \<Rightarrow> w\<lparr>mt := m, sum_X := sX, sum_X2 := sX2, pc := At_critical\<rparr>)"

text \<open>
  \<^verbatim>\<open>
  #pragma omp critical
  {
      done_flag = (done_flag ||
                   is_converged(all_sum_X, all_sum_X2, all_ntrials, rtol, maxtrials));
      all_sum_X  += sum_X;
      all_sum_X2 += sum_X2;
      all_ntrials += tnbatch;
      done_flag = (done_flag ||
                   is_converged(all_sum_X, all_sum_X2, all_ntrials, rtol, maxtrials));
  }
  \<close>
  executed by thread \<open>i\<close> in one step, the critical section excluding the other threads.
  \<open>all_ntrials\<close> is converted to \<open>double\<close> for the call. A sum that leaves the range of
  \<open>long\<close> is undefined behaviour in C: the error \<open>Signed_overflow\<close>.
\<close>

definition critical :: "params \<Rightarrow> nat \<Rightarrow> 'mt state \<Rightarrow> error + 'mt state" where
  "critical p i st =
     (let w = workers st ! i;
          d1 = (done_flag w \<or>
                is_converged (all_sum_X st) (all_sum_X2 st) (double_of_long (all_ntrials st))
                  (rtol p) (maxtrials p));
          sX = dadd (all_sum_X st) (sum_X w);
          sX2 = dadd (all_sum_X2 st) (sum_X2 w);
          n = all_ntrials st + nbatch p
      in if n < - LONG_MAX - 1 \<or> LONG_MAX < n then Inl Signed_overflow
         else Inr (st\<lparr>all_sum_X := sX, all_sum_X2 := sX2, all_ntrials := n,
                workers := (workers st)
                  [i := w\<lparr>done_flag := (d1 \<or> is_converged sX sX2 (double_of_long n)
                                                (rtol p) (maxtrials p)),
                           pc := At_batch\<rparr>],
                commits := commits st @ [(i, sum_X w, sum_X2 w)]\<rparr>))"

text \<open>
  One step of thread \<open>i\<close>: its batch (private variables only) or its critical section.
  A thread whose \<open>done_flag\<close> is set has left the loop and does nothing more.
\<close>

definition step ::
  "('mt \<Rightarrow> double \<times> 'mt) \<Rightarrow> params \<Rightarrow> nat \<Rightarrow> 'mt state \<Rightarrow> error + 'mt state" where
  "step genrand p i st =
     (if i < length (workers st) \<and> \<not> done_flag (workers st ! i)
      then (case pc (workers st ! i) of
              At_batch \<Rightarrow>
                Inr (st\<lparr>workers := (workers st)[i := run_batch genrand p (workers st ! i)]\<rparr>)
            | At_critical \<Rightarrow> critical p i st)
      else Inr st)"

text \<open>An interleaving of the threads: the list of the threads that step, in order.\<close>

fun run ::
  "('mt \<Rightarrow> double \<times> 'mt) \<Rightarrow> params \<Rightarrow> nat list \<Rightarrow> 'mt state \<Rightarrow> error + 'mt state" where
  "run genrand p [] st = Inr st"
| "run genrand p (i # sched) st =
     (case step genrand p i st of
        Inl e \<Rightarrow> Inl e
      | Inr st' \<Rightarrow> run genrand p sched st')"

text \<open>
  The state at the start of the parallel region, one thread for each seeded generator,
  with \<open>done_flag = 0\<close>. The local sums are not initialised in C; they are assigned
  before they are read.
\<close>

definition init_worker :: "'mt \<Rightarrow> 'mt worker" where
  "init_worker m = \<lparr>mt = m, done_flag = False, sum_X = Fin 0, sum_X2 = Fin 0, pc = At_batch\<rparr>"

definition init :: "'mt list \<Rightarrow> 'mt state" where
  "init mts = \<lparr>all_sum_X = Fin 0, all_sum_X2 = Fin 0, all_ntrials = 0,
               workers = map init_worker mts, commits = []\<rparr>"

text \<open>The number of critical sections thread \<open>i\<close> has executed.\<close>

definition batches_merged :: "'mt state \<Rightarrow> nat \<Rightarrow> nat" where
  "batches_merged st i = length (filter (\<lambda>c. fst c = i) (commits st))"

definition all_done :: "'mt state \<Rightarrow> bool" where
  "all_done st = list_all done_flag (workers st)"


text \<open>
  The trials behind the sums. \<open>draw_list genrand n m\<close> is the list of the deviates of \<open>n\<close>
  successive calls of \<open>run_trial\<close> from the generator state \<open>m\<close>, with the state after
  them; \<open>gen_after genrand nb k m\<close> is the state after \<open>k\<close> batches of \<open>nb\<close> trials, and
  \<open>batch_trials genrand nb m k\<close> the deviates of the batch that follows them.
\<close>

fun draw_list :: "('mt \<Rightarrow> double \<times> 'mt) \<Rightarrow> nat \<Rightarrow> 'mt \<Rightarrow> double list \<times> 'mt" where
  "draw_list genrand 0 m = ([], m)"
| "draw_list genrand (Suc n) m =
     (case run_trial genrand m of
        (X, m') \<Rightarrow> (case draw_list genrand n m' of (xs, m'') \<Rightarrow> (X # xs, m'')))"

fun gen_after :: "('mt \<Rightarrow> double \<times> 'mt) \<Rightarrow> nat \<Rightarrow> nat \<Rightarrow> 'mt \<Rightarrow> 'mt" where
  "gen_after genrand nb 0 m = m"
| "gen_after genrand nb (Suc k) m = snd (draw_list genrand nb (gen_after genrand nb k m))"

definition batch_trials :: "('mt \<Rightarrow> double \<times> 'mt) \<Rightarrow> nat \<Rightarrow> 'mt \<Rightarrow> nat \<Rightarrow> double list" where
  "batch_trials genrand nb m k = fst (draw_list genrand nb (gen_after genrand nb k m))"

text \<open>The sum and the sum of squares of the outcomes of a batch, added up from \<open>0\<close>.\<close>

definition batch_sum :: "double list \<Rightarrow> double" where
  "batch_sum xs = foldl dadd (Fin 0) xs"

definition batch_sum2 :: "double list \<Rightarrow> double" where
  "batch_sum2 xs = foldl (\<lambda>s X. dadd s (dmul X X)) (Fin 0) xs"

text \<open>
  What the merges of the threads \<open>ids\<close> (in this order) commit, when thread \<open>i\<close> starts
  from the generator state \<open>mts ! i\<close>: the \<open>k\<close>-th merge of a thread commits the sums of
  the outcomes of its \<open>k\<close>-th batch. \<open>committed_rev\<close> takes the merges newest first.
\<close>

fun committed_rev ::
  "('mt \<Rightarrow> double \<times> 'mt) \<Rightarrow> nat \<Rightarrow> 'mt list \<Rightarrow> nat list \<Rightarrow> (nat \<times> double \<times> double) list" where
  "committed_rev genrand nb mts [] = []"
| "committed_rev genrand nb mts (i # older) =
     (i, batch_sum (batch_trials genrand nb (mts ! i) (count_list older i)),
         batch_sum2 (batch_trials genrand nb (mts ! i) (count_list older i)))
     # committed_rev genrand nb mts older"

definition committed_batches ::
  "('mt \<Rightarrow> double \<times> 'mt) \<Rightarrow> nat \<Rightarrow> 'mt list \<Rightarrow> nat list \<Rightarrow> (nat \<times> double \<times> double) list" where
  "committed_batches genrand nb mts ids = rev (committed_rev genrand nb mts (rev ids))"

text \<open>
  The invariant that ties the state to the trials: the history is what the merges
  commit; a thread before its batch has drawn the batches it has merged; a thread before
  its critical section has drawn one batch more, and holds the sums of that batch.
\<close>

definition trials_inv ::
  "('mt \<Rightarrow> double \<times> 'mt) \<Rightarrow> params \<Rightarrow> 'mt list \<Rightarrow> 'mt state \<Rightarrow> bool" where
  "trials_inv genrand p mts st \<longleftrightarrow>
     length (workers st) = length mts
     \<and> commits st = committed_batches genrand (nat (nbatch p)) mts (map fst (commits st))
     \<and> (\<forall>i<length mts.
          case pc (workers st ! i) of
            At_batch \<Rightarrow>
              mt (workers st ! i)
                = gen_after genrand (nat (nbatch p)) (batches_merged st i) (mts ! i)
          | At_critical \<Rightarrow>
              mt (workers st ! i)
                = gen_after genrand (nat (nbatch p)) (Suc (batches_merged st i)) (mts ! i)
              \<and> sum_X (workers st ! i)
                = batch_sum (batch_trials genrand (nat (nbatch p)) (mts ! i)
                    (batches_merged st i))
              \<and> sum_X2 (workers st ! i)
                = batch_sum2 (batch_trials genrand (nat (nbatch p)) (mts ! i)
                    (batches_merged st i)))"

section \<open>The program\<close>

text \<open>
  \<^verbatim>\<open>
  EX   = all_sum_X / all_ntrials;
  EX2  = all_sum_X2 / all_ntrials;
  stdX = sqrt((EX2-EX*EX) / all_ntrials);
  \<close>
  and the three results that \<open>main\<close> prints: \<open>EX\<close>, \<open>stdX\<close>, \<open>all_ntrials\<close>.
\<close>

record report =
  final_EX :: double
  final_stdX :: double
  final_ntrials :: int

definition final_report :: "'mt state \<Rightarrow> report" where
  "final_report st =
     (let n = double_of_long (all_ntrials st);
          EX' = ddiv (all_sum_X st) n;
          EX2 = ddiv (all_sum_X2 st) n;
          stdX = dsqrt (ddiv (dsub EX2 (dmul EX' EX')) n)
      in \<lparr>final_EX = EX', final_stdX = stdX, final_ntrials = all_ntrials st\<rparr>)"

text \<open>
  \<open>main\<close>: the arguments are processed first; \<open>exit\<close> ends the process there, before the
  parallel region. The region then runs under an interleaving; when every thread has
  left its loop, the results are computed. \<open>Running\<close> is an interleaving too short for
  that.
\<close>

datatype outcome =
    Exit int
  | Undefined_behaviour error
  | Running
  | Finished report

definition main ::
  "('mt \<Rightarrow> double \<times> 'mt) \<Rightarrow> 'mt list \<Rightarrow> getopt_event list \<Rightarrow> bool \<Rightarrow> nat list \<Rightarrow> outcome" where
  "main genrand mts es extra sched =
     (case process_args default_params es extra of
        Inl c \<Rightarrow> Exit c
      | Inr p \<Rightarrow>
          (case run genrand p sched (init mts) of
             Inl e \<Rightarrow> Undefined_behaviour e
           | Inr st \<Rightarrow> if all_done st then Finished (final_report st) else Running))"



section \<open>Scenarios\<close>

text \<open>
  The run of the specification's scenario: \<open>-t 1.0 -n 10 -b 5\<close>, one thread, the
  deviate source that yields \<open>0.5\<close> for ever; and the state of that run between the
  first batch and its critical section.
\<close>

definition scenario_params :: params where
  "scenario_params = \<lparr>rtol = Fin 1, maxtrials = 10, nbatch = 5\<rparr>"

definition scenario_before_merge :: "unit state" where
  "scenario_before_merge =
     \<lparr>all_sum_X = Fin 0, all_sum_X2 = Fin 0, all_ntrials = 0,
      workers = [\<lparr>mt = (), done_flag = False, sum_X = Fin (5/2), sum_X2 = Fin (5/4),
                  pc = At_critical\<rparr>],
      commits = []\<rparr>"

definition scenario_after_merge :: "unit state" where
  "scenario_after_merge =
     \<lparr>all_sum_X = Fin (5/2), all_sum_X2 = Fin (5/4), all_ntrials = 5,
      workers = [\<lparr>mt = (), done_flag = True, sum_X = Fin (5/2), sum_X2 = Fin (5/4),
                  pc = At_batch\<rparr>],
      commits = [(0, Fin (5/2), Fin (5/4))]\<rparr>"

text \<open>
  Three threads with \<open>-t 0.125 -b 4\<close> and the default cap: the first draws four times
  \<open>0.5\<close>, the second \<open>0, 1, 0, 1\<close>, the third \<open>1, 0.5, 0.5, 0\<close>.
\<close>

definition three_params :: params where
  "three_params = \<lparr>rtol = Fin (1/8), maxtrials = 1000000, nbatch = 4\<rparr>"

definition three_streams :: "double list list" where
  "three_streams =
     [[Fin (1/2), Fin (1/2), Fin (1/2), Fin (1/2)],
      [Fin 0, Fin 1, Fin 0, Fin 1],
      [Fin 1, Fin (1/2), Fin (1/2), Fin 0]]"

text \<open>The state of that run when each thread has merged its first batch.\<close>

definition three_after_merges :: "double list state" where
  "three_after_merges =
     \<lparr>all_sum_X = Fin 6, all_sum_X2 = Fin (9/2), all_ntrials = 12,
      workers =
        [\<lparr>mt = [], done_flag = True, sum_X = Fin 2, sum_X2 = Fin 1, pc = At_batch\<rparr>,
         \<lparr>mt = [], done_flag = True, sum_X = Fin 2, sum_X2 = Fin 2, pc = At_batch\<rparr>,
         \<lparr>mt = [], done_flag = False, sum_X = Fin 2, sum_X2 = Fin (3/2), pc = At_batch\<rparr>],
      commits = [(0, Fin 2, Fin 1), (1, Fin 2, Fin 2), (2, Fin 2, Fin (3/2))]\<rparr>"

text \<open>The \<open>done_flag\<close>s and the positions of the threads after an interleaving.\<close>

definition flags_after ::
  "('mt \<Rightarrow> double \<times> 'mt) \<Rightarrow> params \<Rightarrow> nat list \<Rightarrow> 'mt list \<Rightarrow> (bool \<times> pc) list option" where
  "flags_after genrand p sched mts =
     (case run genrand p sched (init mts) of
        Inl e \<Rightarrow> None
      | Inr st \<Rightarrow> Some (map (\<lambda>w. (done_flag w, pc w)) (workers st)))"






section \<open>Rounding of integers\<close>

text \<open>
  A trial count up to \<open>2\<^sup>5\<^sup>3\<close> converts to \<open>double\<close> exactly; a larger one (in the range
  of \<open>long\<close>) converts to a value that is still at least \<open>2\<^sup>5\<^sup>3\<close>.
\<close>

lemma round_even_of_int: "round_even (of_int k) = k"
  by (simp add: round_even_def)


lemma ilog2_of_int: "1 \<le> N \<Longrightarrow> ilog2 (of_int N) = bitlen N - 1"
  by (simp add: ilog2_def)

lemma rnd_pos:
  assumes "0 < x" "ilog2 x = l" "- 1022 \<le> l"
  shows "rnd x = (if (2::real) ^ 1024 \<le> of_int (round_even (x / 2 powi (l - 52))) * 2 powi (l - 52)
                  then PInf else Fin (of_int (round_even (x / 2 powi (l - 52))) * 2 powi (l - 52)))"
proof -
  have m: "max (ilog2 \<bar>x\<bar>) (- 1022) = l" using assms by simp
  have "x \<noteq> 0" "\<not> x < 0" "\<bar>x\<bar> = x" using assms by simp_all
  then show ?thesis unfolding rnd_def Let_def m by (simp del: power_numeral)
qed

lemma rnd_minus: "rnd (- x) = dneg (rnd x)"
  by (simp add: rnd_def Let_def)

lemma rnd_nat_small:
  assumes "1 \<le> N" "N < 2 ^ 53"
  shows "rnd (of_int N) = Fin (of_int N)"
proof -
  define l where "l = bitlen N - 1"
  have b: "bitlen N \<le> 53" using assms by (simp add: bitlen_le_iff_power)
  have l0: "0 \<le> l" using assms bitlen_ge_iff_power[of 1 N] by (simp add: l_def)
  have l52: "l \<le> 52" using b by (simp add: l_def)
  define j where "j = nat (52 - l)"
  have u: "(2::real) powi (l - 52) = 1 / 2 ^ j"
    using l52 by (simp add: j_def power_int_def power_one_over)
  have q: "real_of_int N / 2 powi (l - 52) = of_int (N * 2 ^ j)"
    by (simp add: u)
  have "rnd (of_int N) = Fin (of_int (round_even (of_int N / 2 powi (l - 52))) * 2 powi (l - 52))"
  proof -
    have "of_int (round_even (of_int N / 2 powi (l - 52))) * 2 powi (l - 52) = (of_int N :: real)"
      unfolding q round_even_of_int by (simp add: u)
    moreover have "(of_int N :: real) < 2 ^ 1024"
    proof -
      have "(of_int N :: real) < 2 ^ 53" using assms(2) by (metis of_int_less_numeral_power_cancel_iff)
      also have "\<dots> < (2::real) ^ 1024" by simp
      finally show ?thesis .
    qed
    ultimately show ?thesis
      using rnd_pos[of "of_int N" l] assms l0 by (simp add: ilog2_of_int l_def)
  qed
  also have "\<dots> = Fin (of_int N)"
    unfolding q round_even_of_int by (simp add: u)
  finally show ?thesis .
qed

lemma rnd_2_53: "rnd 9007199254740992 = Fin 9007199254740992"
  unfolding rnd_def Let_def round_even_def ilog2_def by (simp add: compute_bitlen)

lemma rnd_int_exact:
  assumes "\<bar>n\<bar> \<le> 2 ^ 53"
  shows "rnd (of_int n) = Fin (of_int n)"
proof -
  have pos: "rnd (of_int N) = Fin (of_int N)" if "0 \<le> N" "N \<le> 2 ^ 53" for N :: int
  proof -
    show ?thesis
    proof (cases "N = 0")
      case True then show ?thesis by (simp add: rnd_def)
    next
      case n0: False
      show ?thesis
      proof (cases "N = 2 ^ 53")
        case True then show ?thesis using rnd_2_53 by simp
      next
        case False
        then have "1 \<le> N" "N < 2 ^ 53" using that n0 by simp_all
        then show ?thesis by (rule rnd_nat_small)
      qed
    qed
  qed
  show ?thesis
  proof (cases "0 \<le> n")
    case True then show ?thesis using pos[of n] assms by simp
  next
    case False
    then have "rnd (of_int (- n)) = Fin (of_int (- n))" using pos[of "- n"] assms by simp
    then have "dneg (rnd (of_int n)) = Fin (- of_int n)" using rnd_minus[of "of_int n"] by simp
    then show ?thesis by (cases "rnd (real_of_int n)") simp_all
  qed
qed


lemma double_of_long_exact: "\<bar>n\<bar> \<le> 2 ^ 53 \<Longrightarrow> double_of_long n = Fin (of_int n)"
  by (simp add: double_of_long_def rnd_int_exact)


lemma rnd_0: "rnd 0 = Fin 0"
  by (simp add: rnd_def)



lemma rnd_above_2_53:
  "rnd 9007199254740995 = Fin 9007199254740996"
  "rnd 9007199254740996 = Fin 9007199254740996"
  unfolding rnd_def Let_def round_even_def ilog2_def by (simp_all add: compute_bitlen)

lemma rnd_values:
  "rnd (1/2) = Fin (1/2)" "rnd 1 = Fin 1" "rnd (3/2) = Fin (3/2)" "rnd 2 = Fin 2"
  "rnd (5/2) = Fin (5/2)" "rnd (1/4) = Fin (1/4)" "rnd (3/4) = Fin (3/4)"
  "rnd (5/4) = Fin (5/4)" "rnd 5 = Fin 5" "rnd 10 = Fin 10"
  unfolding rnd_def Let_def round_even_def ilog2_def by (simp_all add: compute_bitlen)

lemma rnd_values_three:
  "rnd 3 = Fin 3" "rnd 4 = Fin 4" "rnd 6 = Fin 6" "rnd 8 = Fin 8" "rnd 12 = Fin 12"
  "rnd (9/2) = Fin (9/2)" "rnd (3/8) = Fin (3/8)" "rnd (1/8) = Fin (1/8)"
  "rnd (1/16) = Fin (1/16)" "rnd (1/64) = Fin (1/64)" "rnd 1000000 = Fin 1000000"
  "rnd (1/24) = Fin (6004799503160661 / 144115188075855872)"
  unfolding rnd_def Let_def round_even_def ilog2_def by (simp_all add: compute_bitlen)


section \<open>The convergence test: claims\<close>




text \<open>
  C4, as stated: \<open>is_converged\<close> returns true for every \<open>ntrials\<close> strictly greater than
  \<open>max_trials\<close>. It does not above \<open>2\<^sup>5\<^sup>3\<close>: the cap \<open>2\<^sup>5\<^sup>3 + 3\<close> is converted to the
  \<open>double\<close> \<open>2\<^sup>5\<^sup>3 + 4\<close> for the comparison, so the trial count \<open>2\<^sup>5\<^sup>3 + 4\<close> is not
  greater; with both sums zero the relative-error test is a comparison with NaN.
\<close>

theorem cap_always_wins_counterexample:
  "real_of_int 9007199254740995 < 9007199254740996
   \<and> double_of_long 9007199254740996 = Fin 9007199254740996
   \<and> \<not> is_converged (Fin 0) (Fin 0) (Fin 9007199254740996) (rtol default_params)
          9007199254740995"
  by (simp add: is_converged_def Let_def dsub_def dgreater_def double_of_long_def rnd_0
      rnd_above_2_53)

text \<open>
  C4, amended. Whenever \<open>ntrials\<close> is greater than the cap converted to \<open>double\<close>,
  \<open>is_converged\<close> returns true whatever the sums and the relative-error test are; that
  is so for every \<open>ntrials\<close> greater than \<open>max_trials\<close> when \<open>|max_trials| \<le> 2\<^sup>5\<^sup>3\<close>.
\<close>

theorem cap_wins_after_conversion:
  "(dgreater ntrials (double_of_long m) \<longrightarrow> is_converged sX sX2 ntrials r m)
   \<and> (\<bar>m\<bar> \<le> 2 ^ 53 \<and> real_of_int m < x \<longrightarrow> is_converged sX sX2 (Fin x) r m)"
  by (simp add: is_converged_def Let_def dgreater_def double_of_long_exact)

theorem cap_wins_after_conversion_witness:
  "\<bar>10::int\<bar> \<le> 2 ^ 53 \<and> real_of_int 10 < 11 \<and> dgreater (Fin 11) (double_of_long 10)
   \<and> is_converged (Fin 0) (Fin 0) (Fin 11) (Fin 1) 10"
proof -
  have d: "double_of_long 10 = Fin 10"
    using double_of_long_exact [of 10] by simp
  have g: "dgreater (Fin 11) (double_of_long 10)"
    by (simp add: d dgreater_def)
  show ?thesis
    using g cap_wins_after_conversion [of "Fin 11" 10 "Fin 0" "Fin 0" "Fin 1" 11] by simp
qed




section \<open>Argument processing: claims\<close>

lemma process_args_loop_rejects_batch:
  "Opt_b v \<in> set es \<Longrightarrow> v < 1 \<Longrightarrow> process_args_loop p es = Inl (- 1)"
proof (induction es arbitrary: p)
  case Nil
  then show ?case by simp
next
  case (Cons e es)
  then show ?case by (cases e) auto
qed

lemma process_args_loop_valid:
  "process_args_loop p es = Inr p' \<Longrightarrow> 1 \<le> nbatch p \<Longrightarrow> 1 \<le> maxtrials p \<Longrightarrow>
     1 \<le> nbatch p' \<and> 1 \<le> maxtrials p'"
proof (induction es arbitrary: p)
  case Nil
  then show ?case by simp
next
  case (Cons e es)
  then show ?case by (cases e) (auto split: if_splits)
qed

lemma process_args_valid:
  assumes "process_args default_params es extra = Inr p"
  shows "1 \<le> nbatch p \<and> 1 \<le> maxtrials p"
proof -
  from assms have "process_args_loop default_params es = Inr p"
    by (auto simp: process_args_def split: sum.splits if_splits)
  then show ?thesis
    by (rule process_args_loop_valid) (simp_all add: default_params_def)
qed

text \<open>
  C2, at the failing input \<open>-t 0\<close>: the test is \<open>rtol < 0\<close>, although the message says
  "rtol must be positive". A tolerance of zero passes, \<open>process_args\<close> returns, and
  \<open>main\<close> goes on into the parallel region instead of exiting.
\<close>

theorem zero_tolerance_is_accepted:
  "process_args default_params [Opt_t (Fin 0)] False = Inr (default_params\<lparr>rtol := Fin 0\<rparr>)
   \<and> main genrand mts [Opt_t (Fin 0)] False sched \<noteq> Exit c"
  by (simp add: process_args_def main_def split: sum.splits)

text \<open>
  C9. A run with \<open>-b 0\<close> among its options is rejected while the arguments are
  processed: \<open>process_args\<close> calls \<open>exit(-1)\<close>, a non-zero status, and \<open>main\<close> ends there,
  whatever the deviate source and the interleaving would have been: no thread runs a
  trial.
\<close>

theorem zero_batch_size_is_rejected:
  assumes "Opt_b 0 \<in> set es"
  shows "process_args default_params es extra = Inl (- 1)
    \<and> exit_status (- 1) \<noteq> 0
    \<and> main genrand mts es extra sched = Exit (- 1)"
  using assms
  by (simp add: process_args_def main_def process_args_loop_rejects_batch exit_status_def)

theorem zero_batch_size_is_rejected_witness:
  "Opt_b 0 \<in> set [Opt_t (Fin 1), Opt_b 0]
   \<and> exit_status (- 1) = 255
   \<and> main (const_source (Fin (1/2))) [()] [Opt_t (Fin 1), Opt_b 0] False [0, 0] = Exit (- 1)"
proof -
  have h: "Opt_b 0 \<in> set [Opt_t (Fin 1), Opt_b 0]" by simp
  show ?thesis
    using zero_batch_size_is_rejected [OF h, of False "const_source (Fin (1/2))" "[()]" "[0, 0]"]
    by (simp add: exit_status_def)
qed


section \<open>The parallel region: steps and invariants\<close>

lemma critical_effect:
  assumes "i < length (workers st)" "critical p i st = Inr st'"
  shows "all_sum_X st' = dadd (all_sum_X st) (sum_X (workers st ! i))
    \<and> all_sum_X2 st' = dadd (all_sum_X2 st) (sum_X2 (workers st ! i))
    \<and> all_ntrials st' = all_ntrials st + nbatch p
    \<and> commits st' = commits st @ [(i, sum_X (workers st ! i), sum_X2 (workers st ! i))]
    \<and> length (workers st') = length (workers st)
    \<and> (\<forall>j. j \<noteq> i \<longrightarrow> workers st' ! j = workers st ! j)
    \<and> pc (workers st' ! i) = At_batch
    \<and> done_flag (workers st' ! i) =
        (done_flag (workers st ! i)
         \<or> is_converged (all_sum_X st) (all_sum_X2 st) (double_of_long (all_ntrials st))
              (rtol p) (maxtrials p)
         \<or> is_converged (all_sum_X st') (all_sum_X2 st') (double_of_long (all_ntrials st'))
              (rtol p) (maxtrials p))"
  using assms by (auto simp: critical_def Let_def split: if_splits)

lemma step_cases:
  assumes "step g p i st = Inr st'"
  shows "st' = st
    \<or> (i < length (workers st) \<and> \<not> done_flag (workers st ! i) \<and> pc (workers st ! i) = At_batch
        \<and> st' = st\<lparr>workers := (workers st)[i := run_batch g p (workers st ! i)]\<rparr>)
    \<or> (i < length (workers st) \<and> \<not> done_flag (workers st ! i) \<and> pc (workers st ! i) = At_critical
        \<and> critical p i st = Inr st')"
  using assms by (auto simp: step_def split: if_splits pc.splits)

lemma sum_filter_length:
  "\<forall>c\<in>set cs. fst c < (W::nat) \<Longrightarrow> (\<Sum>i<W. length (filter (\<lambda>c. fst c = i) cs)) = length cs"
proof (induction cs)
  case Nil
  then show ?case by simp
next
  case (Cons c cs)
  have "(\<Sum>i<W. length (filter (\<lambda>c. fst c = i) (c # cs)))
      = (\<Sum>i<W. (if fst c = i then 1 else 0) + length (filter (\<lambda>c. fst c = i) cs))"
    by (intro sum.cong) auto
  also have "\<dots> = (\<Sum>i<W. (if fst c = i then 1 else 0)) + (\<Sum>i<W. length (filter (\<lambda>c. fst c = i) cs))"
    by (simp add: sum.distrib)
  also have "(\<Sum>i<W. (if fst c = i then 1 else 0 :: nat)) = (if fst c \<in> {..<W} then 1 else 0)"
    by (rule sum.delta') (rule finite_lessThan)
  finally show ?case using Cons by simp
qed


lemma step_preserves:
  assumes "step g p i st = Inr st'"
    and "all_ntrials st = nbatch p * int (length (commits st))"
    and "all_sum_X st = foldl dadd (Fin 0) (map (\<lambda>c. fst (snd c)) (commits st))"
    and "all_sum_X2 st = foldl dadd (Fin 0) (map (\<lambda>c. snd (snd c)) (commits st))"
    and "\<forall>c\<in>set (commits st). fst c < length (workers st)"
  shows "all_ntrials st' = nbatch p * int (length (commits st'))
    \<and> all_sum_X st' = foldl dadd (Fin 0) (map (\<lambda>c. fst (snd c)) (commits st'))
    \<and> all_sum_X2 st' = foldl dadd (Fin 0) (map (\<lambda>c. snd (snd c)) (commits st'))
    \<and> (\<forall>c\<in>set (commits st'). fst c < length (workers st'))
    \<and> length (workers st') = length (workers st)"
  using step_cases[OF assms(1)]
proof (elim disjE conjE)
  assume "st' = st"
  then show ?thesis using assms by simp
next
  assume "st' = st\<lparr>workers := (workers st)[i := run_batch g p (workers st ! i)]\<rparr>"
  then show ?thesis using assms by simp
next
  assume i: "i < length (workers st)" and c: "critical p i st = Inr st'"
  show ?thesis
    using critical_effect[OF i c] assms(2-5) i by (simp add: algebra_simps)
qed

lemma run_preserves:
  assumes "run g p sched st = Inr st'"
    and "all_ntrials st = nbatch p * int (length (commits st))"
    and "all_sum_X st = foldl dadd (Fin 0) (map (\<lambda>c. fst (snd c)) (commits st))"
    and "all_sum_X2 st = foldl dadd (Fin 0) (map (\<lambda>c. snd (snd c)) (commits st))"
    and "\<forall>c\<in>set (commits st). fst c < length (workers st)"
  shows "all_ntrials st' = nbatch p * int (length (commits st'))
    \<and> all_sum_X st' = foldl dadd (Fin 0) (map (\<lambda>c. fst (snd c)) (commits st'))
    \<and> all_sum_X2 st' = foldl dadd (Fin 0) (map (\<lambda>c. snd (snd c)) (commits st'))
    \<and> (\<forall>c\<in>set (commits st'). fst c < length (workers st'))
    \<and> length (workers st') = length (workers st)"
  using assms
proof (induction sched arbitrary: st)
  case Nil
  then show ?case by simp
next
  case (Cons i sched)
  from Cons.prems(1) obtain st1 where s: "step g p i st = Inr st1" and r: "run g p sched st1 = Inr st'"
    by (auto split: sum.splits)
  have 1: "all_ntrials st1 = nbatch p * int (length (commits st1))
    \<and> all_sum_X st1 = foldl dadd (Fin 0) (map (\<lambda>c. fst (snd c)) (commits st1))
    \<and> all_sum_X2 st1 = foldl dadd (Fin 0) (map (\<lambda>c. snd (snd c)) (commits st1))
    \<and> (\<forall>c\<in>set (commits st1). fst c < length (workers st1))
    \<and> length (workers st1) = length (workers st)"
    by (rule step_preserves[OF s Cons.prems(2-5)])
  have 2: "all_ntrials st' = nbatch p * int (length (commits st'))
    \<and> all_sum_X st' = foldl dadd (Fin 0) (map (\<lambda>c. fst (snd c)) (commits st'))
    \<and> all_sum_X2 st' = foldl dadd (Fin 0) (map (\<lambda>c. snd (snd c)) (commits st'))
    \<and> (\<forall>c\<in>set (commits st'). fst c < length (workers st'))
    \<and> length (workers st') = length (workers st1)"
    using 1 by (intro Cons.IH[OF r]) blast+
  show ?case using 1 2 by auto
qed


lemma run_all_done: "all_done st \<Longrightarrow> run g p sched st = Inr st"
proof (induction sched)
  case Nil
  then show ?case by simp
next
  case (Cons i sched)
  then show ?case by (auto simp: step_def all_done_def list_all_length)
qed

lemma batch_loop_draw_list:
  "batch_loop g n (m, sX, sX2) =
     (snd (draw_list g n m), foldl dadd sX (fst (draw_list g n m)),
      foldl (\<lambda>s X. dadd s (dmul X X)) sX2 (fst (draw_list g n m)))"
proof (induction n arbitrary: m sX sX2)
  case 0
  then show ?case by simp
next
  case (Suc n)
  then show ?case by (simp split: prod.splits)
qed

lemma run_batch_trials:
  "run_batch g p w =
     w\<lparr>mt := snd (draw_list g (nat (nbatch p)) (mt w)),
       sum_X := batch_sum (fst (draw_list g (nat (nbatch p)) (mt w))),
       sum_X2 := batch_sum2 (fst (draw_list g (nat (nbatch p)) (mt w))),
       pc := At_critical\<rparr>"
  by (simp add: run_batch_def batch_loop_draw_list batch_sum_def batch_sum2_def)

lemma batches_merged_count:
  "batches_merged st i = count_list (map fst (commits st)) i"
proof -
  have "length (filter (\<lambda>c. fst c = i) cs) = count_list (map fst cs) i" for cs :: "(nat \<times> double \<times> double) list"
    by (induction cs) auto
  then show ?thesis by (simp add: batches_merged_def)
qed

lemma committed_batches_snoc:
  "committed_batches g nb mts (ids @ [i]) =
     committed_batches g nb mts ids
     @ [(i, batch_sum (batch_trials g nb (mts ! i) (count_list ids i)),
            batch_sum2 (batch_trials g nb (mts ! i) (count_list ids i)))]"
  by (simp add: committed_batches_def)

lemma trials_inv_init: "trials_inv g p mts (init mts)"
  by (simp add: trials_inv_def init_def committed_batches_def batches_merged_def
      init_worker_def)

lemma trials_inv_step:
  assumes s: "step g p j st = Inr st'" and inv: "trials_inv g p mts st"
  shows "trials_inv g p mts st'"
  using step_cases [OF s]
proof (elim disjE conjE)
  assume "st' = st"
  then show ?thesis using inv by simp
next
  assume j: "j < length (workers st)" and pcj: "pc (workers st ! j) = At_batch"
    and st': "st' = st\<lparr>workers := (workers st)[j := run_batch g p (workers st ! j)]\<rparr>"
  have len: "length (workers st) = length mts" using inv by (simp add: trials_inv_def)
  have bm: "batches_merged st' i = batches_merged st i" for i
    by (simp add: batches_merged_def st')
  have old: "case pc (workers st ! i) of
            At_batch \<Rightarrow>
              mt (workers st ! i)
                = gen_after g (nat (nbatch p)) (batches_merged st i) (mts ! i)
          | At_critical \<Rightarrow>
              mt (workers st ! i)
                = gen_after g (nat (nbatch p)) (Suc (batches_merged st i)) (mts ! i)
              \<and> sum_X (workers st ! i)
                = batch_sum (batch_trials g (nat (nbatch p)) (mts ! i) (batches_merged st i))
              \<and> sum_X2 (workers st ! i)
                = batch_sum2 (batch_trials g (nat (nbatch p)) (mts ! i) (batches_merged st i))"
    if "i < length mts" for i
    using inv that by (simp add: trials_inv_def)
  have mtj: "mt (workers st ! j) = gen_after g (nat (nbatch p)) (batches_merged st j) (mts ! j)"
    using old [of j] j len pcj by simp
  show ?thesis
    unfolding trials_inv_def
  proof (intro conjI allI impI)
    show "length (workers st') = length mts" using len by (simp add: st')
    show "commits st' = committed_batches g (nat (nbatch p)) mts (map fst (commits st'))"
      using inv by (simp add: st' trials_inv_def)
  next
    fix i assume i: "i < length mts"
    show "case pc (workers st' ! i) of
            At_batch \<Rightarrow>
              mt (workers st' ! i)
                = gen_after g (nat (nbatch p)) (batches_merged st' i) (mts ! i)
          | At_critical \<Rightarrow>
              mt (workers st' ! i)
                = gen_after g (nat (nbatch p)) (Suc (batches_merged st' i)) (mts ! i)
              \<and> sum_X (workers st' ! i)
                = batch_sum (batch_trials g (nat (nbatch p)) (mts ! i) (batches_merged st' i))
              \<and> sum_X2 (workers st' ! i)
                = batch_sum2 (batch_trials g (nat (nbatch p)) (mts ! i) (batches_merged st' i))"
    proof (cases "i = j")
      case True
      have "workers st' ! j = run_batch g p (workers st ! j)" using j by (simp add: st')
      then show ?thesis
        using True by (simp add: bm run_batch_trials mtj batch_trials_def)
    next
      case False
      then have "workers st' ! i = workers st ! i" by (simp add: st')
      then show ?thesis using old [OF i] by (simp add: bm split: pc.splits)
    qed
  qed
next
  assume j: "j < length (workers st)" and pcj: "pc (workers st ! j) = At_critical"
    and c: "critical p j st = Inr st'"
  note e = critical_effect [OF j c]
  have len: "length (workers st) = length mts" using inv by (simp add: trials_inv_def)
  have cs: "commits st = committed_batches g (nat (nbatch p)) mts (map fst (commits st))"
    using inv by (simp add: trials_inv_def)
  have old: "case pc (workers st ! i) of
            At_batch \<Rightarrow>
              mt (workers st ! i)
                = gen_after g (nat (nbatch p)) (batches_merged st i) (mts ! i)
          | At_critical \<Rightarrow>
              mt (workers st ! i)
                = gen_after g (nat (nbatch p)) (Suc (batches_merged st i)) (mts ! i)
              \<and> sum_X (workers st ! i)
                = batch_sum (batch_trials g (nat (nbatch p)) (mts ! i) (batches_merged st i))
              \<and> sum_X2 (workers st ! i)
                = batch_sum2 (batch_trials g (nat (nbatch p)) (mts ! i) (batches_merged st i))"
    if "i < length mts" for i
    using inv that by (simp add: trials_inv_def)
  have oldj: "mt (workers st ! j)
        = gen_after g (nat (nbatch p)) (Suc (batches_merged st j)) (mts ! j)"
    "sum_X (workers st ! j)
        = batch_sum (batch_trials g (nat (nbatch p)) (mts ! j) (batches_merged st j))"
    "sum_X2 (workers st ! j)
        = batch_sum2 (batch_trials g (nat (nbatch p)) (mts ! j) (batches_merged st j))"
    using old [of j] j len pcj by simp_all
  have cm: "commits st' = commits st @ [(j, sum_X (workers st ! j), sum_X2 (workers st ! j))]"
    using e by simp
  have bm: "batches_merged st' i = batches_merged st i + (if i = j then 1 else 0)" for i
    using cm by (simp add: batches_merged_def)
  have mtj: "mt (workers st' ! j) = mt (workers st ! j)"
    using j c by (auto simp: critical_def Let_def split: if_splits)
  show ?thesis
    unfolding trials_inv_def
  proof (intro conjI allI impI)
    show "length (workers st') = length mts" using e len by simp
    have "committed_batches g (nat (nbatch p)) mts (map fst (commits st'))
        = committed_batches g (nat (nbatch p)) mts (map fst (commits st))
          @ [(j, sum_X (workers st ! j), sum_X2 (workers st ! j))]"
      by (simp add: cm committed_batches_snoc oldj batches_merged_count)
    then show "commits st' = committed_batches g (nat (nbatch p)) mts (map fst (commits st'))"
      using cs cm by simp
  next
    fix i assume i: "i < length mts"
    show "case pc (workers st' ! i) of
            At_batch \<Rightarrow>
              mt (workers st' ! i)
                = gen_after g (nat (nbatch p)) (batches_merged st' i) (mts ! i)
          | At_critical \<Rightarrow>
              mt (workers st' ! i)
                = gen_after g (nat (nbatch p)) (Suc (batches_merged st' i)) (mts ! i)
              \<and> sum_X (workers st' ! i)
                = batch_sum (batch_trials g (nat (nbatch p)) (mts ! i) (batches_merged st' i))
              \<and> sum_X2 (workers st' ! i)
                = batch_sum2 (batch_trials g (nat (nbatch p)) (mts ! i) (batches_merged st' i))"
    proof (cases "i = j")
      case True
      have "pc (workers st' ! j) = At_batch" using e by simp
      then show ?thesis using True oldj(1) by (simp add: bm mtj)
    next
      case False
      then have "workers st' ! i = workers st ! i" "batches_merged st' i = batches_merged st i"
        using e by (simp_all add: bm)
      then show ?thesis using old [OF i] by (simp split: pc.splits)
    qed
  qed
qed

lemma trials_inv_run:
  "run g p sched st = Inr st' \<Longrightarrow> trials_inv g p mts st \<Longrightarrow> trials_inv g p mts st'"
proof (induction sched arbitrary: st)
  case Nil
  then show ?case by simp
next
  case (Cons j sched)
  from Cons.prems(1) obtain st1 where s: "step g p j st = Inr st1"
    and r: "run g p sched st1 = Inr st'"
    by (auto split: sum.splits)
  from Cons.IH [OF r trials_inv_step [OF s Cons.prems(2)]] show ?case .
qed

text \<open>
  C6. A critical section of thread \<open>i\<close> adds the thread's local sums and \<open>nbatch\<close> to
  the shared totals, and the thread's flag afterwards is its flag before, or the
  convergence test on the totals before the addition, or the convergence test on the
  totals after it: two tests, one on each side of the merge, either of which sets the
  flag. (In C the second call is skipped by \<open>||\<close> when the flag is already set;
  \<open>is_converged\<close> has no effect, so the flag is the same.)
\<close>

theorem critical_section_checks_before_and_after:
  assumes "i < length (workers st)" and "critical p i st = Inr st'"
  shows "all_sum_X st' = dadd (all_sum_X st) (sum_X (workers st ! i))
    \<and> all_sum_X2 st' = dadd (all_sum_X2 st) (sum_X2 (workers st ! i))
    \<and> all_ntrials st' = all_ntrials st + nbatch p
    \<and> done_flag (workers st' ! i) =
        (done_flag (workers st ! i)
         \<or> is_converged (all_sum_X st) (all_sum_X2 st) (double_of_long (all_ntrials st))
              (rtol p) (maxtrials p)
         \<or> is_converged (all_sum_X st') (all_sum_X2 st') (double_of_long (all_ntrials st'))
              (rtol p) (maxtrials p))"
  using critical_effect [OF assms] by simp

text \<open>
  C5. In every state that an interleaving reaches from the start of the parallel region,
  with the parameters that \<open>process_args\<close> returns: \<open>all_ntrials\<close> is the sum over the
  threads of the batches merged by the thread times \<open>nbatch\<close>, a non-negative multiple of
  \<open>nbatch\<close>; the history of the merges is what the merged batches drew, the \<open>k\<close>-th merge
  of a thread carrying the sum and the sum of squares of the outcomes of the \<open>nbatch\<close>
  trials of that thread's \<open>k\<close>-th batch; \<open>all_sum_X\<close> and \<open>all_sum_X2\<close> are the running
  totals of these sums, in the order of the merges; a thread before its critical
  section holds the sums of the outcomes of its next batch, which is none of the merged
  ones; and a further step either leaves the totals as they are (a batch in flight
  touches private variables only) or is a critical section, which adds exactly
  \<open>nbatch\<close> trials and that thread's local sums.
\<close>

theorem trial_count_and_sums_invariant:
  assumes "process_args default_params es extra = Inr p"
    and "run g p sched (init mts) = Inr st"
  shows "all_ntrials st = (\<Sum>i<length (workers st). int (batches_merged st i) * nbatch p)
    \<and> 0 \<le> all_ntrials st \<and> nbatch p dvd all_ntrials st
    \<and> all_sum_X st = foldl dadd (Fin 0) (map (\<lambda>c. fst (snd c)) (commits st))
    \<and> all_sum_X2 st = foldl dadd (Fin 0) (map (\<lambda>c. snd (snd c)) (commits st))
    \<and> commits st = committed_batches g (nat (nbatch p)) mts (map fst (commits st))
    \<and> all_sum_X st = foldl dadd (Fin 0)
          (map (\<lambda>c. fst (snd c))
             (committed_batches g (nat (nbatch p)) mts (map fst (commits st))))
    \<and> all_sum_X2 st = foldl dadd (Fin 0)
          (map (\<lambda>c. snd (snd c))
             (committed_batches g (nat (nbatch p)) mts (map fst (commits st))))
    \<and> (j < length mts \<and> pc (workers st ! j) = At_critical \<longrightarrow>
          sum_X (workers st ! j)
            = batch_sum (batch_trials g (nat (nbatch p)) (mts ! j) (batches_merged st j))
          \<and> sum_X2 (workers st ! j)
            = batch_sum2 (batch_trials g (nat (nbatch p)) (mts ! j) (batches_merged st j)))
    \<and> (step g p i st = Inr st' \<longrightarrow>
          (all_ntrials st' = all_ntrials st \<and> all_sum_X st' = all_sum_X st
             \<and> all_sum_X2 st' = all_sum_X2 st \<and> commits st' = commits st)
          \<or> (pc (workers st ! i) = At_critical
             \<and> all_ntrials st' = all_ntrials st + nbatch p
             \<and> all_sum_X st' = dadd (all_sum_X st) (sum_X (workers st ! i))
             \<and> all_sum_X2 st' = dadd (all_sum_X2 st) (sum_X2 (workers st ! i))
             \<and> commits st' = commits st @ [(i, sum_X (workers st ! i), sum_X2 (workers st ! i))]))"
proof -
  have inv: "all_ntrials st = nbatch p * int (length (commits st))
    \<and> all_sum_X st = foldl dadd (Fin 0) (map (\<lambda>c. fst (snd c)) (commits st))
    \<and> all_sum_X2 st = foldl dadd (Fin 0) (map (\<lambda>c. snd (snd c)) (commits st))
    \<and> (\<forall>c\<in>set (commits st). fst c < length (workers st))
    \<and> length (workers st) = length (workers (init mts))"
    by (rule run_preserves[OF assms(2)]) (simp_all add: init_def)
  have tr: "trials_inv g p mts st"
    by (rule trials_inv_run [OF assms(2) trials_inv_init])
  have cs: "commits st = committed_batches g (nat (nbatch p)) mts (map fst (commits st))"
    using tr by (simp add: trials_inv_def)
  have fl: "j < length mts \<and> pc (workers st ! j) = At_critical \<longrightarrow>
          sum_X (workers st ! j)
            = batch_sum (batch_trials g (nat (nbatch p)) (mts ! j) (batches_merged st j))
          \<and> sum_X2 (workers st ! j)
            = batch_sum2 (batch_trials g (nat (nbatch p)) (mts ! j) (batches_merged st j))"
  proof
    assume a: "j < length mts \<and> pc (workers st ! j) = At_critical"
    have "case pc (workers st ! j) of
            At_batch \<Rightarrow>
              mt (workers st ! j)
                = gen_after g (nat (nbatch p)) (batches_merged st j) (mts ! j)
          | At_critical \<Rightarrow>
              mt (workers st ! j)
                = gen_after g (nat (nbatch p)) (Suc (batches_merged st j)) (mts ! j)
              \<and> sum_X (workers st ! j)
                = batch_sum (batch_trials g (nat (nbatch p)) (mts ! j) (batches_merged st j))
              \<and> sum_X2 (workers st ! j)
                = batch_sum2 (batch_trials g (nat (nbatch p)) (mts ! j) (batches_merged st j))"
      using tr a unfolding trials_inv_def by blast
    then show "sum_X (workers st ! j)
            = batch_sum (batch_trials g (nat (nbatch p)) (mts ! j) (batches_merged st j))
          \<and> sum_X2 (workers st ! j)
            = batch_sum2 (batch_trials g (nat (nbatch p)) (mts ! j) (batches_merged st j))"
      using a by simp
  qed
  have "(\<Sum>i<length (workers st). batches_merged st i) = length (commits st)"
    unfolding batches_merged_def using inv by (intro sum_filter_length) blast
  then have "int (length (commits st)) = (\<Sum>i<length (workers st). int (batches_merged st i))"
    by (metis of_nat_sum)
  then have n: "all_ntrials st = (\<Sum>i<length (workers st). int (batches_merged st i) * nbatch p)"
    using inv by (simp add: sum_distrib_left mult.commute)
  have nn: "0 \<le> all_ntrials st \<and> nbatch p dvd all_ntrials st"
    using inv process_args_valid [OF assms(1)] by simp
  have st: "step g p i st = Inr st' \<longrightarrow>
          (all_ntrials st' = all_ntrials st \<and> all_sum_X st' = all_sum_X st
             \<and> all_sum_X2 st' = all_sum_X2 st \<and> commits st' = commits st)
          \<or> (pc (workers st ! i) = At_critical
             \<and> all_ntrials st' = all_ntrials st + nbatch p
             \<and> all_sum_X st' = dadd (all_sum_X st) (sum_X (workers st ! i))
             \<and> all_sum_X2 st' = dadd (all_sum_X2 st) (sum_X2 (workers st ! i))
             \<and> commits st' = commits st @ [(i, sum_X (workers st ! i), sum_X2 (workers st ! i))])"
  proof
    assume s: "step g p i st = Inr st'"
    from step_cases[OF s] show "(all_ntrials st' = all_ntrials st \<and> all_sum_X st' = all_sum_X st
             \<and> all_sum_X2 st' = all_sum_X2 st \<and> commits st' = commits st)
          \<or> (pc (workers st ! i) = At_critical
             \<and> all_ntrials st' = all_ntrials st + nbatch p
             \<and> all_sum_X st' = dadd (all_sum_X st) (sum_X (workers st ! i))
             \<and> all_sum_X2 st' = dadd (all_sum_X2 st) (sum_X2 (workers st ! i))
             \<and> commits st' = commits st @ [(i, sum_X (workers st ! i), sum_X2 (workers st ! i))])"
    proof (elim disjE conjE)
      assume "st' = st" then show ?thesis by simp
    next
      assume "st' = st\<lparr>workers := (workers st)[i := run_batch g p (workers st ! i)]\<rparr>"
      then show ?thesis by simp
    next
      assume i: "i < length (workers st)" and c: "critical p i st = Inr st'"
        and a: "pc (workers st ! i) = At_critical"
      show ?thesis using critical_effect[OF i c] a by simp
    qed
  qed
  have sx: "all_sum_X st = foldl dadd (Fin 0)
          (map (\<lambda>c. fst (snd c))
             (committed_batches g (nat (nbatch p)) mts (map fst (commits st))))"
    "all_sum_X2 st = foldl dadd (Fin 0)
          (map (\<lambda>c. snd (snd c))
             (committed_batches g (nat (nbatch p)) mts (map fst (commits st))))"
    using inv cs by simp_all
  show ?thesis using n nn inv cs sx fl st by blast
qed


section \<open>The scenario with the constant stream\<close>

lemma scenario_params_sel:
  "rtol scenario_params = Fin 1" "maxtrials scenario_params = 10" "nbatch scenario_params = 5"
  by (simp_all add: scenario_params_def)

lemma init_worker_sel:
  "done_flag (init_worker m) = False" "pc (init_worker m) = At_batch" "mt (init_worker m) = m"
  by (simp_all add: init_worker_def)

lemma scenario_process_args:
  "process_args default_params [Opt_t (Fin 1), Opt_n 10, Opt_b 5] False = Inr scenario_params"
  by (simp add: process_args_def default_params_def scenario_params_def)

lemma scenario_batch:
  "run_batch (const_source (Fin (1/2))) scenario_params (init_worker ()) =
     \<lparr>mt = (), done_flag = False, sum_X = Fin (5/2), sum_X2 = Fin (5/4), pc = At_critical\<rparr>"
  by (simp add: run_batch_def scenario_params_sel init_worker_def eval_nat_numeral
      run_trial_def const_source_def rnd_values)

lemma scenario_not_converged_before:
  "is_converged (Fin 0) (Fin 0) (double_of_long 0) (Fin 1) 10 = False"
  by (simp add: is_converged_def Let_def double_of_long_def rnd_0 dgreater_def dsub_def
      rnd_values)

lemma scenario_converged_after:
  "is_converged (Fin (5/2)) (Fin (5/4)) (double_of_long 5) (Fin 1) 10 = True"
  by (simp add: is_converged_def Let_def double_of_long_def rnd_0 dgreater_def dsub_def
      rnd_values)

lemma scenario_first_step:
  "step (const_source (Fin (1/2))) scenario_params 0 (init [()]) = Inr scenario_before_merge"
  by (simp add: step_def init_def init_worker_sel scenario_batch scenario_before_merge_def)

lemma scenario_critical:
  "critical scenario_params 0 scenario_before_merge = Inr scenario_after_merge"
  by (simp add: critical_def Let_def scenario_before_merge_def scenario_after_merge_def
      scenario_params_sel scenario_not_converged_before scenario_converged_after LONG_MAX_def
      rnd_values)

lemma scenario_second_step:
  "step (const_source (Fin (1/2))) scenario_params 0 scenario_before_merge
     = Inr scenario_after_merge"
proof -
  have "0 < length (workers scenario_before_merge)"
    "\<not> done_flag (workers scenario_before_merge ! 0)"
    "pc (workers scenario_before_merge ! 0) = At_critical"
    by (simp_all add: scenario_before_merge_def)
  then show ?thesis by (simp add: step_def scenario_critical)
qed

lemma scenario_run:
  "run (const_source (Fin (1/2))) scenario_params [0, 0] (init [()]) = Inr scenario_after_merge"
  by (simp add: scenario_first_step scenario_second_step)

lemma scenario_report:
  "final_report scenario_after_merge =
     \<lparr>final_EX = Fin (1/2), final_stdX = Fin 0, final_ntrials = 5\<rparr>"
  by (simp add: final_report_def scenario_after_merge_def Let_def double_of_long_def dsub_def
      rnd_values rnd_0)

lemma scenario_done: "all_done scenario_after_merge"
  by (simp add: all_done_def scenario_after_merge_def)

text \<open>
  C7. With \<open>-t 1.0 -n 10 -b 5\<close>, one thread and the deviate source that is constantly
  \<open>0.5\<close>: the first batch leaves the local sums \<open>2.5\<close> and \<open>1.25\<close>; its critical section
  makes the totals \<open>sum_X = 2.5\<close>, \<open>sum_X2 = 1.25\<close>, \<open>ntrials = 5\<close>; the mean is \<open>0.5\<close>, the
  variance \<open>0\<close>, the relative error \<open>0\<close> is below \<open>1\<close>, so the test succeeds and the thread
  leaves its loop. The run is not over before that critical section, and it is over
  after it whatever steps follow: one batch, five trials, final mean \<open>0.5\<close> and final
  standard error \<open>0\<close>.
\<close>

theorem scenario_constant_half:
  "process_args default_params [Opt_t (Fin 1), Opt_n 10, Opt_b 5] False = Inr scenario_params
   \<and> run (const_source (Fin (1/2))) scenario_params [0] (init [()]) = Inr scenario_before_merge
   \<and> run (const_source (Fin (1/2))) scenario_params [0, 0] (init [()]) = Inr scenario_after_merge
   \<and> spec_mean (Fin (5/2)) (double_of_long 5) = Fin (1/2)
   \<and> spec_variance (Fin (5/2)) (Fin (5/4)) (double_of_long 5) = Fin 0
   \<and> ddiv (ddiv (Fin 0) (dmul (Fin (1/2)) (Fin (1/2)))) (double_of_long 5) = Fin 0
   \<and> dmul (Fin 1) (Fin 1) = Fin 1
   \<and> is_converged (Fin (5/2)) (Fin (5/4)) (double_of_long 5) (Fin 1) 10
   \<and> main (const_source (Fin (1/2))) [()] [Opt_t (Fin 1), Opt_n 10, Opt_b 5] False [0] = Running
   \<and> main (const_source (Fin (1/2))) [()] [Opt_t (Fin 1), Opt_n 10, Opt_b 5] False
        (0 # 0 # sched)
      = Finished \<lparr>final_EX = Fin (1/2), final_stdX = Fin 0, final_ntrials = 5\<rparr>"
proof -
  have a: "run (const_source (Fin (1/2))) scenario_params [0] (init [()])
      = Inr scenario_before_merge"
    by (simp add: scenario_first_step)
  have b: "spec_mean (Fin (5/2)) (double_of_long 5) = Fin (1/2)
      \<and> spec_variance (Fin (5/2)) (Fin (5/4)) (double_of_long 5) = Fin 0
      \<and> ddiv (ddiv (Fin 0) (dmul (Fin (1/2)) (Fin (1/2)))) (double_of_long 5) = Fin 0
      \<and> dmul (Fin 1) (Fin 1) = Fin 1"
    by (simp add: spec_mean_def spec_variance_def spec_mean_of_squares_def double_of_long_def
        dsub_def rnd_values rnd_0)
  have c: "main (const_source (Fin (1/2))) [()] [Opt_t (Fin 1), Opt_n 10, Opt_b 5] False [0]
      = Running"
    by (simp add: main_def scenario_process_args a all_done_def scenario_before_merge_def
        del: run.simps)
  have d: "run (const_source (Fin (1/2))) scenario_params (0 # 0 # sched) (init [()])
      = Inr scenario_after_merge"
    by (simp add: scenario_first_step scenario_second_step run_all_done scenario_done)
  have e: "main (const_source (Fin (1/2))) [()] [Opt_t (Fin 1), Opt_n 10, Opt_b 5] False
        (0 # 0 # sched)
      = Finished \<lparr>final_EX = Fin (1/2), final_stdX = Fin 0, final_ntrials = 5\<rparr>"
    by (simp add: main_def scenario_process_args d scenario_done scenario_report
        del: run.simps)
  show ?thesis
    using scenario_process_args a scenario_run b scenario_converged_after c e by simp
qed

theorem critical_section_checks_before_and_after_witness:
  "0 < length (workers scenario_before_merge)
   \<and> critical scenario_params 0 scenario_before_merge = Inr scenario_after_merge
   \<and> all_ntrials scenario_after_merge = all_ntrials scenario_before_merge + 5
   \<and> \<not> done_flag (workers scenario_before_merge ! 0)
   \<and> \<not> is_converged (Fin 0) (Fin 0) (double_of_long 0) (Fin 1) 10
   \<and> is_converged (Fin (5/2)) (Fin (5/4)) (double_of_long 5) (Fin 1) 10
   \<and> done_flag (workers scenario_after_merge ! 0)"
proof -
  have h: "0 < length (workers scenario_before_merge)"
    by (simp add: scenario_before_merge_def)
  show ?thesis
    using critical_section_checks_before_and_after [OF h scenario_critical]
      scenario_critical scenario_not_converged_before scenario_converged_after
    by (simp add: scenario_before_merge_def scenario_after_merge_def scenario_params_sel)
qed


section \<open>The termination flag\<close>

lemma three_params_sel:
  "rtol three_params = Fin (1/8)" "maxtrials three_params = 1000000" "nbatch three_params = 4"
  by (simp_all add: three_params_def)

lemma three_checks:
  "is_converged (Fin 0) (Fin 0) (double_of_long 0) (Fin (1/8)) 1000000 = False"
  "is_converged (Fin 2) (Fin 1) (double_of_long 4) (Fin (1/8)) 1000000 = True"
  "is_converged (Fin 4) (Fin 3) (double_of_long 8) (Fin (1/8)) 1000000 = False"
  "is_converged (Fin 6) (Fin (9/2)) (double_of_long 12) (Fin (1/8)) 1000000 = False"
  by (simp_all add: is_converged_def Let_def double_of_long_def rnd_0 dgreater_def dsub_def
      rnd_values rnd_values_three)

lemma three_batches:
  "run_batch list_source three_params (init_worker [Fin (1/2), Fin (1/2), Fin (1/2), Fin (1/2)]) =
     \<lparr>mt = [], done_flag = False, sum_X = Fin 2, sum_X2 = Fin 1, pc = At_critical\<rparr>"
  "run_batch list_source three_params (init_worker [Fin 0, Fin 1, Fin 0, Fin 1]) =
     \<lparr>mt = [], done_flag = False, sum_X = Fin 2, sum_X2 = Fin 2, pc = At_critical\<rparr>"
  "run_batch list_source three_params (init_worker [Fin 1, Fin (1/2), Fin (1/2), Fin 0]) =
     \<lparr>mt = [], done_flag = False, sum_X = Fin 2, sum_X2 = Fin (3/2), pc = At_critical\<rparr>"
  by (simp_all add: run_batch_def three_params_sel init_worker_def eval_nat_numeral
      run_trial_def rnd_values rnd_0)

lemma three_next_batch:
  "run_batch list_source three_params
     \<lparr>mt = [], done_flag = False, sum_X = Fin 2, sum_X2 = Fin (3/2), pc = At_batch\<rparr> =
     \<lparr>mt = [], done_flag = False, sum_X = Fin 0, sum_X2 = Fin 0, pc = At_critical\<rparr>"
  by (simp add: run_batch_def three_params_sel eval_nat_numeral run_trial_def rnd_0)

text \<open>
  C3, as stated: one shared flag, and once a thread's check has set it every thread stops
  at the end of its current batch. The flag is a private variable of each thread. With
  three threads, each with its first batch ready: the first thread's critical section
  sets its flag (zero variance); the second finds the test true before its merge and
  sets its own, but its batch raises the variance; the third then finds the test false
  before and after its merge, keeps its flag unset at the end of its current batch and
  runs another batch, while the flags of the other two are set.
\<close>

theorem shared_flag_counterexample:
  "flags_after list_source three_params [0, 1, 2, 0] three_streams
     = Some [(True, At_batch), (False, At_critical), (False, At_critical)]
   \<and> flags_after list_source three_params [0, 1, 2, 0, 1] three_streams
     = Some [(True, At_batch), (True, At_batch), (False, At_critical)]
   \<and> flags_after list_source three_params [0, 1, 2, 0, 1, 2] three_streams
     = Some [(True, At_batch), (True, At_batch), (False, At_batch)]
   \<and> flags_after list_source three_params [0, 1, 2, 0, 1, 2, 2] three_streams
     = Some [(True, At_batch), (True, At_batch), (False, At_critical)]"
  by (simp add: flags_after_def three_streams_def init_def step_def init_worker_sel three_batches
      three_next_batch critical_def Let_def three_params_sel three_checks LONG_MAX_def
      rnd_values rnd_values_three)

lemma step_keeps_done:
  assumes "step g p j st = Inr st'" "i < length (workers st)" "done_flag (workers st ! i)"
  shows "workers st' ! i = workers st ! i \<and> length (workers st') = length (workers st)"
  using step_cases [OF assms(1)]
proof (elim disjE conjE)
  assume "st' = st"
  then show ?thesis by simp
next
  assume "\<not> done_flag (workers st ! j)"
    and "st' = st\<lparr>workers := (workers st)[j := run_batch g p (workers st ! j)]\<rparr>"
  then show ?thesis using assms(3) by (cases "i = j") auto
next
  assume j: "j < length (workers st)" and n: "\<not> done_flag (workers st ! j)"
    and c: "critical p j st = Inr st'"
  have "i \<noteq> j" using n assms(3) by auto
  then show ?thesis using critical_effect [OF j c] by simp
qed

lemma run_keeps_done:
  assumes "run g p sched st = Inr st'" "i < length (workers st)" "done_flag (workers st ! i)"
  shows "workers st' ! i = workers st ! i \<and> length (workers st') = length (workers st)"
  using assms
proof (induction sched arbitrary: st)
  case Nil
  then show ?case by simp
next
  case (Cons j sched)
  from Cons.prems(1) obtain st1 where s: "step g p j st = Inr st1"
    and r: "run g p sched st1 = Inr st'"
    by (auto split: sum.splits)
  from step_keeps_done [OF s Cons.prems(2,3)]
  have 1: "workers st1 ! i = workers st ! i" "length (workers st1) = length (workers st)"
    by simp_all
  from Cons.IH [OF r] 1 Cons.prems(2,3) show ?case by simp
qed

text \<open>
  C3, amended. Each thread has its own flag. A flag that is set stays set along every
  interleaving. A thread that ends its batch sets its flag exactly when the convergence
  test holds on the shared totals just before or just after its own merge: after the
  check of one thread has set that thread's flag, another thread stops at the end of its
  current batch when the totals it finds, or leaves, still pass the test, and not
  otherwise.
\<close>

theorem private_flags:
  "(run g p sched st = Inr st' \<and> i < length (workers st) \<and> done_flag (workers st ! i)
      \<longrightarrow> done_flag (workers st' ! i))
   \<and> (step g p j s = Inr s' \<and> j < length (workers s) \<and> \<not> done_flag (workers s ! j)
       \<and> pc (workers s ! j) = At_critical
      \<longrightarrow> done_flag (workers s' ! j) =
            (is_converged (all_sum_X s) (all_sum_X2 s) (double_of_long (all_ntrials s))
               (rtol p) (maxtrials p)
             \<or> is_converged (all_sum_X s') (all_sum_X2 s') (double_of_long (all_ntrials s'))
                 (rtol p) (maxtrials p)))"
proof (intro conjI impI)
  assume "run g p sched st = Inr st' \<and> i < length (workers st) \<and> done_flag (workers st ! i)"
  then show "done_flag (workers st' ! i)" using run_keeps_done [of g p sched st st' i] by simp
next
  assume a: "step g p j s = Inr s' \<and> j < length (workers s) \<and> \<not> done_flag (workers s ! j)
       \<and> pc (workers s ! j) = At_critical"
  then have c: "critical p j s = Inr s'" by (auto simp: step_def)
  from a have j: "j < length (workers s)" by simp
  show "done_flag (workers s' ! j) =
            (is_converged (all_sum_X s) (all_sum_X2 s) (double_of_long (all_ntrials s))
               (rtol p) (maxtrials p)
             \<or> is_converged (all_sum_X s') (all_sum_X2 s') (double_of_long (all_ntrials s'))
                 (rtol p) (maxtrials p))"
    using critical_effect [OF j c] a by simp
qed

theorem private_flags_witness:
  "run (const_source (Fin (1/2))) scenario_params [0, 0] scenario_after_merge
     = Inr scenario_after_merge
   \<and> 0 < length (workers scenario_after_merge)
   \<and> done_flag (workers scenario_after_merge ! 0)
   \<and> step (const_source (Fin (1/2))) scenario_params 0 scenario_before_merge
       = Inr scenario_after_merge
   \<and> 0 < length (workers scenario_before_merge)
   \<and> \<not> done_flag (workers scenario_before_merge ! 0)
   \<and> pc (workers scenario_before_merge ! 0) = At_critical
   \<and> is_converged (all_sum_X scenario_after_merge) (all_sum_X2 scenario_after_merge)
        (double_of_long (all_ntrials scenario_after_merge)) (rtol scenario_params)
        (maxtrials scenario_params)"
proof -
  have r: "run (const_source (Fin (1/2))) scenario_params [0, 0] scenario_after_merge
      = Inr scenario_after_merge"
    by (rule run_all_done [OF scenario_done])
  have b: "0 < length (workers scenario_before_merge)"
    "\<not> done_flag (workers scenario_before_merge ! 0)"
    "pc (workers scenario_before_merge ! 0) = At_critical"
    by (simp_all add: scenario_before_merge_def)
  have a: "0 < length (workers scenario_after_merge)"
    "done_flag (workers scenario_after_merge ! 0)"
    by (simp_all add: scenario_after_merge_def)
  have n: "\<not> is_converged (all_sum_X scenario_before_merge) (all_sum_X2 scenario_before_merge)
        (double_of_long (all_ntrials scenario_before_merge)) (rtol scenario_params)
        (maxtrials scenario_params)"
    by (simp add: scenario_before_merge_def scenario_params_sel scenario_not_converged_before)
  show ?thesis
    using private_flags [where g = "const_source (Fin (1/2))" and p = scenario_params
        and sched = "[0, 0]" and st = scenario_after_merge and st' = scenario_after_merge
        and i = 0 and j = 0 and s = scenario_before_merge and s' = scenario_after_merge]
      r a b n scenario_second_step
    by (simp del: run.simps)
qed


lemma three_process_args:
  "process_args default_params [Opt_t (Fin (1/8)), Opt_b 4] False = Inr three_params"
  by (simp add: process_args_def default_params_def three_params_def)

lemma three_run:
  "run list_source three_params [0, 1, 2, 0, 1, 2] (init three_streams)
     = Inr three_after_merges"
  by (simp add: three_streams_def init_def step_def init_worker_sel three_batches
      critical_def Let_def three_params_sel three_checks LONG_MAX_def
      rnd_values rnd_values_three three_after_merges_def)

lemma three_committed:
  "committed_batches list_source 4 three_streams [0, 1, 2]
     = [(0, Fin 2, Fin 1), (1, Fin 2, Fin 2), (2, Fin 2, Fin (3/2))]"
  by (simp add: committed_batches_def three_streams_def batch_trials_def batch_sum_def
      batch_sum2_def eval_nat_numeral run_trial_def rnd_values rnd_0)

lemma three_second_batch:
  "run list_source three_params [0, 1, 2, 0, 1, 2, 2] (init three_streams)
     = Inr (three_after_merges\<lparr>workers := (workers three_after_merges)
          [2 := \<lparr>mt = [], done_flag = False, sum_X = Fin 0, sum_X2 = Fin 0,
                 pc = At_critical\<rparr>]\<rparr>)"
  by (simp add: three_streams_def init_def step_def init_worker_sel three_batches
      three_next_batch critical_def Let_def three_params_sel three_checks LONG_MAX_def
      rnd_values rnd_values_three three_after_merges_def)

theorem trial_count_and_sums_invariant_witness:
  "process_args default_params [Opt_t (Fin (1/8)), Opt_b 4] False = Inr three_params
   \<and> run list_source three_params [0, 1, 2, 0, 1, 2] (init three_streams)
       = Inr three_after_merges
   \<and> all_ntrials three_after_merges = 12
   \<and> (\<Sum>i<3. int (batches_merged three_after_merges i) * 4) = 12
   \<and> commits three_after_merges = committed_batches list_source 4 three_streams [0, 1, 2]
   \<and> committed_batches list_source 4 three_streams [0, 1, 2]
       = [(0, Fin 2, Fin 1), (1, Fin 2, Fin 2), (2, Fin 2, Fin (3/2))]
   \<and> batch_trials list_source 4 (three_streams ! 2) 0 = [Fin 1, Fin (1/2), Fin (1/2), Fin 0]
   \<and> all_sum_X three_after_merges = dadd (dadd (dadd (Fin 0) (Fin 2)) (Fin 2)) (Fin 2)
   \<and> all_sum_X three_after_merges = Fin 6
   \<and> run list_source three_params [0, 1, 2, 0, 1, 2, 2] (init three_streams)
       = Inr (three_after_merges\<lparr>workers := (workers three_after_merges)
            [2 := \<lparr>mt = [], done_flag = False, sum_X = Fin 0, sum_X2 = Fin 0,
                   pc = At_critical\<rparr>]\<rparr>)
   \<and> batch_trials list_source 4 (three_streams ! 2) 1 = [Fin 0, Fin 0, Fin 0, Fin 0]
   \<and> batch_sum (batch_trials list_source 4 (three_streams ! 2) 1) = Fin 0"
proof -
  let ?s = "three_after_merges\<lparr>workers := (workers three_after_merges)
      [2 := \<lparr>mt = [], done_flag = False, sum_X = Fin 0, sum_X2 = Fin 0,
             pc = At_critical\<rparr>]\<rparr>"
  note U = trial_count_and_sums_invariant [OF three_process_args three_second_batch,
      of 2 0 ?s]
  have m: "batches_merged ?s 2 = 1" "2 < length three_streams"
    "pc (workers ?s ! 2) = At_critical" "sum_X (workers ?s ! 2) = Fin 0"
    "nat (nbatch three_params) = 4"
    by (simp_all add: three_after_merges_def batches_merged_def three_streams_def
        three_params_sel)
  have b1: "batch_trials list_source 4 (three_streams ! 2) 1 = [Fin 0, Fin 0, Fin 0, Fin 0]"
    by (simp add: batch_trials_def three_streams_def eval_nat_numeral run_trial_def)
  have "2 < length three_streams \<and> pc (workers ?s ! 2) = At_critical \<longrightarrow>
      sum_X (workers ?s ! 2)
        = batch_sum (batch_trials list_source (nat (nbatch three_params)) (three_streams ! 2)
            (batches_merged ?s 2))
      \<and> sum_X2 (workers ?s ! 2)
        = batch_sum2 (batch_trials list_source (nat (nbatch three_params)) (three_streams ! 2)
            (batches_merged ?s 2))"
    by (rule U [THEN conjunct2, THEN conjunct2, THEN conjunct2, THEN conjunct2,
          THEN conjunct2, THEN conjunct2, THEN conjunct2, THEN conjunct2, THEN conjunct1])
  then have f: "batch_sum (batch_trials list_source 4 (three_streams ! 2) 1) = Fin 0"
    using m by simp
  note T = trial_count_and_sums_invariant [OF three_process_args three_run,
      of 0 0 three_after_merges]
  have b: "batch_trials list_source 4 (three_streams ! 2) 0
      = [Fin 1, Fin (1/2), Fin (1/2), Fin 0]"
    by (simp add: batch_trials_def three_streams_def eval_nat_numeral run_trial_def)
  have l: "length (workers three_after_merges) = 3"
    "map fst (commits three_after_merges) = [0, 1, 2]"
    "nat (nbatch three_params) = 4" "nbatch three_params = 4"
    by (simp_all add: three_after_merges_def three_params_sel)
  have n12: "all_ntrials three_after_merges = 12"
    and x6: "all_sum_X three_after_merges = Fin 6"
    by (simp_all add: three_after_merges_def)
  have "all_ntrials three_after_merges
      = (\<Sum>i<length (workers three_after_merges).
           int (batches_merged three_after_merges i) * nbatch three_params)"
    by (rule T [THEN conjunct1])
  then have s: "(\<Sum>i<3. int (batches_merged three_after_merges i) * 4) = 12"
    unfolding l n12 by simp
  have "commits three_after_merges
      = committed_batches list_source (nat (nbatch three_params)) three_streams
          (map fst (commits three_after_merges))"
    by (rule T [THEN conjunct2, THEN conjunct2, THEN conjunct2, THEN conjunct2,
          THEN conjunct2, THEN conjunct1])
  then have c: "commits three_after_merges
      = committed_batches list_source 4 three_streams [0, 1, 2]"
    unfolding l by simp
  have d: "dadd (dadd (dadd (Fin 0) (Fin 2)) (Fin 2)) (Fin 2) = Fin 6"
    by (simp add: rnd_values rnd_values_three)
  have xd: "all_sum_X three_after_merges = dadd (dadd (dadd (Fin 0) (Fin 2)) (Fin 2)) (Fin 2)"
    by (simp only: x6 d)
  show ?thesis
    by (intro conjI)
      (rule three_process_args three_run n12 s c three_committed b xd x6
        three_second_batch b1 f)+
qed


section \<open>Termination of the loops\<close>


























end
